theory Spec2Isabelle
  imports Complex_Main
begin

section \<open>The settings module: \<open>backend/maritime_project/settings.py\<close>\<close>

subsection \<open>Python strings and the process environment\<close>

text \<open>
  A Python \<open>str\<close> is a sequence of Unicode code points; it is modelled as the list of
  its code points. \<open>lit\<close> turns a literal of the source into that list.
\<close>

type_synonym pystr = "nat list"

definition lit :: "string \<Rightarrow> pystr" where
  "lit s = map of_char s"

text \<open>
  \<open>str.isspace\<close> for one code point, as \<open>str.strip()\<close> without arguments uses it:
  U+0009..U+000D, U+001C..U+0020, U+0085, U+00A0, U+1680, U+2000..U+200A, U+2028, U+2029,
  U+202F, U+205F and U+3000.
\<close>

definition py_isspace :: "nat \<Rightarrow> bool" where
  "py_isspace c \<longleftrightarrow>
     (9 \<le> c \<and> c \<le> 13) \<or> (28 \<le> c \<and> c \<le> 32) \<or> c = 133 \<or> c = 160 \<or> c = 5760 \<or>
     (8192 \<le> c \<and> c \<le> 8202) \<or> c = 8232 \<or> c = 8233 \<or> c = 8239 \<or> c = 8287 \<or> c = 12288"

definition lstrip :: "pystr \<Rightarrow> pystr" where
  "lstrip s = dropWhile py_isspace s"

definition rstrip :: "pystr \<Rightarrow> pystr" where
  "rstrip s = rev (dropWhile py_isspace (rev s))"

definition strip :: "pystr \<Rightarrow> pystr" where
  "strip s = rstrip (lstrip s)"

text \<open>
  \<open>s.split(sep)\<close> for a separator of one code point: the pieces between the separators,
  empty pieces kept, so the result always has at least one piece.
\<close>

fun split :: "nat \<Rightarrow> pystr \<Rightarrow> pystr list" where
  "split sep [] = [[]]"
| "split sep (c # cs) =
     (if c = sep then [] # split sep cs
      else (case split sep cs of
              [] \<Rightarrow> [[c]]
            | w # ws \<Rightarrow> (c # w) # ws))"

text \<open>
  The environment after \<open>load_dotenv()\<close>, as \<open>os.getenv\<close> reads it: a variable is
  either unset or bound to a string.
\<close>

type_synonym environ = "pystr \<rightharpoonup> pystr"

definition getenv :: "environ \<Rightarrow> pystr \<Rightarrow> pystr option" where
  "getenv env name = env name"

definition getenv_default :: "environ \<Rightarrow> pystr \<Rightarrow> pystr \<Rightarrow> pystr" where
  "getenv_default env name dflt = (case env name of None \<Rightarrow> dflt | Some v \<Rightarrow> v)"

subsection \<open>\<open>_parse_csv_env\<close> and \<open>ALLOWED_HOSTS\<close>\<close>

text \<open>
  \<^verbatim>\<open>
  def _parse_csv_env(name):
      raw = os.getenv(name, "")
      return [v.strip() for v in raw.split(",") if v.strip()]
  \<close>
  A string is true in a condition when it is not empty.
\<close>

definition parse_csv_env :: "environ \<Rightarrow> pystr \<Rightarrow> pystr list" where
  "parse_csv_env env name =
     (let raw = getenv_default env name []
      in map strip (filter (\<lambda>v. strip v \<noteq> []) (split 44 raw)))"

text \<open>
  \<open>list(dict.fromkeys(xs))\<close>: the keys are inserted from left to right, a key that is
  already present keeps its place. \<open>dict_fromkeys acc xs\<close> is the key order of the
  dictionary that holds \<open>acc\<close> after \<open>xs\<close> has been inserted.
\<close>

fun dict_fromkeys :: "'a list \<Rightarrow> 'a list \<Rightarrow> 'a list" where
  "dict_fromkeys acc [] = acc"
| "dict_fromkeys acc (x # xs) =
     (if x \<in> set acc then dict_fromkeys acc xs else dict_fromkeys (acc @ [x]) xs)"

text \<open>
  \<^verbatim>\<open>
  _allowed_hosts = _parse_csv_env("ALLOWED_HOSTS")
  if _allowed_hosts:
      ALLOWED_HOSTS = _allowed_hosts
  else:
      ALLOWED_HOSTS = ["localhost", "127.0.0.1"]
  _render_hostname = os.getenv("RENDER_EXTERNAL_HOSTNAME")
  if _render_hostname:
      ALLOWED_HOSTS.append(_render_hostname.strip())
  ALLOWED_HOSTS = list(dict.fromkeys([h for h in ALLOWED_HOSTS if h]))
  \<close>
\<close>

definition allowed_hosts_initial :: "environ \<Rightarrow> pystr list" where
  "allowed_hosts_initial env =
     (let allowed = parse_csv_env env (lit ''ALLOWED_HOSTS'')
      in if allowed \<noteq> [] then allowed else [lit ''localhost'', lit ''127.0.0.1''])"

definition allowed_hosts_appended :: "environ \<Rightarrow> pystr list" where
  "allowed_hosts_appended env =
     (case getenv env (lit ''RENDER_EXTERNAL_HOSTNAME'') of
        None \<Rightarrow> allowed_hosts_initial env
      | Some render_hostname \<Rightarrow>
          if render_hostname \<noteq> [] then allowed_hosts_initial env @ [strip render_hostname]
          else allowed_hosts_initial env)"

definition allowed_hosts :: "environ \<Rightarrow> pystr list" where
  "allowed_hosts env = dict_fromkeys [] (filter (\<lambda>h. h \<noteq> []) (allowed_hosts_appended env))"

subsection \<open>The settings object\<close>

text \<open>
  The module-level assignments the platform's core reads, as one record built from the
  environment. \<open>DEBUG\<close> and \<open>ALLOW_VERCEL_APP_ORIGINS\<close> compare the variable with the
  string \<open>True\<close>; the application-specific settings are literals of the module.
\<close>

record settings =
  SECRET_KEY :: pystr
  DEBUG :: bool
  ALLOWED_HOSTS :: "pystr list"
  CORS_ALLOWED_ORIGINS :: "pystr list"
  ALLOW_VERCEL_APP_ORIGINS :: bool
  CSRF_TRUSTED_ORIGINS :: "pystr list"
  CELERY_BROKER_URL :: pystr
  CELERY_RESULT_BACKEND :: pystr
  MARINETRAFFIC_API_KEY :: pystr
  MARINESIA_API_KEY :: pystr
  UNCTAD_API_KEY :: pystr
  NOAA_API_KEY :: pystr
  STORMGLASS_API_KEY :: pystr
  MAX_LOGIN_ATTEMPTS :: int
  ACCOUNT_LOCKOUT_MINUTES :: int
  CONGESTION_THRESHOLD :: int
  VESSEL_UPDATE_INTERVAL :: int
  SESSION_TIMEOUT_MINUTES :: int

definition cors_allowed_origins :: "environ \<Rightarrow> pystr list" where
  "cors_allowed_origins env =
     (let cors_allowed = parse_csv_env env (lit ''CORS_ALLOWED_ORIGINS'')
      in if cors_allowed \<noteq> [] then cors_allowed
         else [lit ''http://localhost:3000'', lit ''http://127.0.0.1:3000''])"

definition allow_vercel_app_origins :: "environ \<Rightarrow> bool" where
  "allow_vercel_app_origins env \<longleftrightarrow>
     getenv_default env (lit ''ALLOW_VERCEL_APP_ORIGINS'') (lit ''True'') = lit ''True''"

definition csrf_trusted_origins :: "environ \<Rightarrow> pystr list" where
  "csrf_trusted_origins env =
     (let trusted = parse_csv_env env (lit ''CSRF_TRUSTED_ORIGINS'')
      in if trusted = [] \<and> allow_vercel_app_origins env then [lit ''https://*.vercel.app'']
         else trusted)"

definition load_settings :: "environ \<Rightarrow> settings" where
  "load_settings env =
     \<lparr> SECRET_KEY = getenv_default env (lit ''DJANGO_SECRET_KEY'')
                      (lit ''django-insecure-dev-key-change-in-production''),
       DEBUG = (getenv_default env (lit ''DEBUG'') (lit ''False'') = lit ''True''),
       ALLOWED_HOSTS = allowed_hosts env,
       CORS_ALLOWED_ORIGINS = cors_allowed_origins env,
       ALLOW_VERCEL_APP_ORIGINS = allow_vercel_app_origins env,
       CSRF_TRUSTED_ORIGINS = csrf_trusted_origins env,
       CELERY_BROKER_URL = getenv_default env (lit ''REDIS_URL'') (lit ''redis://localhost:6379/0''),
       CELERY_RESULT_BACKEND =
         getenv_default env (lit ''REDIS_URL'') (lit ''redis://localhost:6379/0''),
       MARINETRAFFIC_API_KEY = getenv_default env (lit ''MARINETRAFFIC_API_KEY'') [],
       MARINESIA_API_KEY = getenv_default env (lit ''MARINESIA_API_KEY'') [],
       UNCTAD_API_KEY = getenv_default env (lit ''UNCTAD_API_KEY'') [],
       NOAA_API_KEY = getenv_default env (lit ''NOAA_API_KEY'') [],
       STORMGLASS_API_KEY = getenv_default env (lit ''STORMGLASS_API_KEY'') [],
       MAX_LOGIN_ATTEMPTS = 5,
       ACCOUNT_LOCKOUT_MINUTES = 30,
       CONGESTION_THRESHOLD = 75,
       VESSEL_UPDATE_INTERVAL = 60,
       SESSION_TIMEOUT_MINUTES = 60 \<rparr>"

section \<open>The tracking core described by the specification\<close>

text \<open>
  The repository's sources hold the settings module only. The components below exist in
  the specification; each definition is written from the specification's sentences and
  says so.
\<close>

subsection \<open>StateStore\<close>

text \<open>
  Modelled from the spec: the record VesselPosition of section 3, ``vessel identifier,
  latitude, longitude, speed, heading, timestamp, source provider, confidence''. The
  StateStore and the Reconciler are missing from the sources.
\<close>

record VesselPosition =
  vessel_identifier :: string
  latitude :: real
  longitude :: real
  speed :: real
  heading :: real
  timestamp :: int
  source_provider :: string
  confidence :: real

text \<open>
  Modelled from the spec: ``CanonicalVesselState: one per vessel identifier; the
  reconciled, current-best VesselPosition. Owned by StateStore''. The store maps a vessel
  identifier to its canonical state.
\<close>

type_synonym CanonicalVesselState = VesselPosition

type_synonym state_store = "string \<rightharpoonup> CanonicalVesselState"

text \<open>
  Modelled from the spec: ``upsert(CanonicalVesselState) applies the monotonic-timestamp
  invariant'', that is ``a report with an older timestamp than the stored one is
  discarded''; any other report overwrites the stored state in place.
\<close>

definition upsert :: "state_store \<Rightarrow> CanonicalVesselState \<Rightarrow> state_store" where
  "upsert store s =
     (case store (vessel_identifier s) of
        None \<Rightarrow> store(vessel_identifier s \<mapsto> s)
      | Some stored \<Rightarrow>
          if timestamp s < timestamp stored then store
          else store(vessel_identifier s \<mapsto> s))"

text \<open>Modelled from the spec: ``get(id) -> state or NotFound''.\<close>

datatype store_error = NotFound

definition get :: "state_store \<Rightarrow> string \<Rightarrow> store_error + CanonicalVesselState" where
  "get store ident = (case store ident of None \<Rightarrow> Inl NotFound | Some s \<Rightarrow> Inr s)"

text \<open>
  Modelled from the spec: a sequence of upsert operations on the StateStore, applied from
  left to right.
\<close>

fun upsert_all :: "state_store \<Rightarrow> CanonicalVesselState list \<Rightarrow> state_store" where
  "upsert_all store [] = store"
| "upsert_all store (s # rest) = upsert_all (upsert store s) rest"

subsection \<open>Reconciler\<close>

text \<open>
  Modelled from the spec: the ``deterministic provider-priority order (configured list)''.
  A provider's rank is its position in the configured list; a provider the list does not
  name ranks after all that it names.
\<close>

definition provider_rank :: "string list \<Rightarrow> string \<Rightarrow> nat" where
  "provider_rank priority p = length (takeWhile (\<lambda>q. q \<noteq> p) priority)"

text \<open>
  Modelled from the spec: ``(1) highest reported timestamp wins; (2) on timestamp tie,
  higher declared confidence wins; (3) on further tie, deterministic provider-priority
  order (configured list) wins''. \<open>wins_over priority a b\<close> says that \<open>a\<close> wins
  against \<open>b\<close> by one of the three rules.
\<close>

definition wins_over :: "string list \<Rightarrow> VesselPosition \<Rightarrow> VesselPosition \<Rightarrow> bool" where
  "wins_over priority a b \<longleftrightarrow>
     timestamp b < timestamp a \<or>
     (timestamp a = timestamp b \<and>
       (confidence b < confidence a \<or>
        (confidence a = confidence b \<and>
         provider_rank priority (source_provider a) < provider_rank priority (source_provider b))))"

text \<open>
  Modelled from the spec: ``given all normalized VesselPositions for one vessel identifier
  collected in the current cycle, selects the authoritative position''. The positions are
  read in order; the current best gives way to a position that wins over it. No position
  gives no authoritative position.
\<close>

fun select_best :: "string list \<Rightarrow> VesselPosition \<Rightarrow> VesselPosition list \<Rightarrow> VesselPosition" where
  "select_best priority best [] = best"
| "select_best priority best (p # ps) =
     select_best priority (if wins_over priority p best then p else best) ps"

definition reconcile :: "string list \<Rightarrow> VesselPosition list \<Rightarrow> VesselPosition option" where
  "reconcile priority positions =
     (case positions of [] \<Rightarrow> None | p # ps \<Rightarrow> Some (select_best priority p ps))"

subsection \<open>CongestionEvaluator\<close>

text \<open>
  Modelled from the spec: the record PortCongestionSnapshot of section 3, ``port id,
  vessels-waiting count, average wait time, timestamp, source provider''. The
  CongestionEvaluator is missing from the sources.
\<close>

record PortCongestionSnapshot =
  port_id :: string
  vessels_waiting :: nat
  average_wait_time :: real
  snapshot_timestamp :: int
  snapshot_source :: string

text \<open>
  Modelled from the spec: the threshold applies to ``vessels-waiting (or average wait
  time, per configured metric)''.
\<close>

datatype congestion_metric = VesselsWaiting | AverageWaitTime

definition metric_value :: "congestion_metric \<Rightarrow> PortCongestionSnapshot \<Rightarrow> real" where
  "metric_value m snap =
     (case m of
        VesselsWaiting \<Rightarrow> real (vessels_waiting snap)
      | AverageWaitTime \<Rightarrow> average_wait_time snap)"

text \<open>
  Modelled from the spec: the record NotificationEvent of section 3, ``kind, subject id,
  observed value, threshold, timestamp'', with the two kinds the evaluator creates: the
  threshold crossing and the recovery.
\<close>

datatype event_kind = CongestionThresholdExceeded | CongestionRecovered

record NotificationEvent =
  kind :: event_kind
  subject_id :: string
  observed_value :: real
  threshold :: real
  event_timestamp :: int

text \<open>
  Modelled from the spec: ``evaluate(PortCongestionSnapshot, threshold) -> optional
  NotificationEvent. Fires exactly when [the metric] crosses the configured threshold from
  below to at-or-above; does not re-fire on every subsequent cycle while still above
  threshold; requires tracking prior-cycle state per port to detect the crossing. Also
  fires a recovery event when the metric falls back below threshold.'' The prior-cycle
  state of a port is the metric of its snapshot of the cycle before; a port seen for the
  first time has none, so nothing has been crossed and no event is created.
\<close>

definition evaluate ::
  "congestion_metric \<Rightarrow> real option \<Rightarrow> PortCongestionSnapshot \<Rightarrow> real \<Rightarrow> NotificationEvent option"
where
  "evaluate m prior snap thr =
     (let v = metric_value m snap
      in case prior of
           None \<Rightarrow> None
         | Some before \<Rightarrow>
             if before < thr \<and> thr \<le> v then
               Some \<lparr> kind = CongestionThresholdExceeded, subject_id = port_id snap,
                      observed_value = v, threshold = thr,
                      event_timestamp = snapshot_timestamp snap \<rparr>
             else if thr \<le> before \<and> v < thr then
               Some \<lparr> kind = CongestionRecovered, subject_id = port_id snap,
                      observed_value = v, threshold = thr,
                      event_timestamp = snapshot_timestamp snap \<rparr>
             else None)"

text \<open>
  Modelled from the spec: the prior-cycle state per port, and the evaluator over the
  snapshots of successive cycles: each snapshot is evaluated against the state its port
  had in the cycle before and then becomes that port's state.
\<close>

type_synonym prior_state = "string \<rightharpoonup> real"

fun evaluate_cycles ::
  "congestion_metric \<Rightarrow> real \<Rightarrow> prior_state \<Rightarrow> PortCongestionSnapshot list \<Rightarrow>
   NotificationEvent option list"
where
  "evaluate_cycles m thr prior [] = []"
| "evaluate_cycles m thr prior (snap # snaps) =
     evaluate m (prior (port_id snap)) snap thr #
     evaluate_cycles m thr (prior(port_id snap \<mapsto> metric_value m snap)) snaps"

text \<open>
  Modelled from the spec: the NotificationEvents a run hands to the dispatcher, that is
  the events of the run without the cycles that created none.
\<close>

definition emitted :: "NotificationEvent option list \<Rightarrow> NotificationEvent list" where
  "emitted evs = concat (map (\<lambda>e. case e of None \<Rightarrow> [] | Some ev \<Rightarrow> [ev]) evs)"

text \<open>
  Modelled from the spec: the ``prior-cycle state per port'' read off the run itself. For a
  snapshot of port \<open>p\<close> that follows the snapshots \<open>earlier\<close>, the state of the
  cycle before is the metric of the latest earlier snapshot of \<open>p\<close>, or what was
  tracked for \<open>p\<close> before the run when the run has not yet seen \<open>p\<close>.
\<close>

definition previous_metric ::
  "congestion_metric \<Rightarrow> prior_state \<Rightarrow> PortCongestionSnapshot list \<Rightarrow> string \<Rightarrow> real option"
where
  "previous_metric m prior earlier p =
     (let own = filter (\<lambda>s. port_id s = p) earlier
      in if own = [] then prior p else Some (metric_value m (last own)))"

subsection \<open>Example inputs\<close>

text \<open>
  A report for the vessel \<open>V\<close> with a given timestamp, provider and confidence, and a
  snapshot of the port \<open>P\<close> with a given number of waiting vessels and timestamp: the
  concrete inputs the properties below are evaluated on.
\<close>

definition example_position :: "int \<Rightarrow> string \<Rightarrow> real \<Rightarrow> VesselPosition" where
  "example_position t provider conf =
     \<lparr> vessel_identifier = ''V'', latitude = 0, longitude = 0, speed = 0, heading = 0,
       timestamp = t, source_provider = provider, confidence = conf \<rparr>"

definition example_snapshot :: "nat \<Rightarrow> int \<Rightarrow> PortCongestionSnapshot" where
  "example_snapshot waiting t =
     \<lparr> port_id = ''P'', vessels_waiting = waiting, average_wait_time = 0,
       snapshot_timestamp = t, snapshot_source = ''A'' \<rparr>"

section \<open>Properties of the settings module\<close>

subsection \<open>Strings, splitting and de-duplication\<close>

lemma split_not_Nil: "split sep s \<noteq> []"
  by (induction s) (auto split: list.splits)

lemma set_dict_fromkeys: "set (dict_fromkeys acc xs) = set acc \<union> set xs"
  by (induction xs arbitrary: acc) auto

lemma distinct_dict_fromkeys: "distinct acc \<Longrightarrow> distinct (dict_fromkeys acc xs)"
  by (induction xs arbitrary: acc) auto

lemma remdups_skip_later: "x \<in> set bs \<Longrightarrow> remdups (as @ x # bs) = remdups (as @ bs)"
  by (induction as) auto

lemma dict_fromkeys_first_occurrences:
  "distinct acc \<Longrightarrow> dict_fromkeys acc xs = rev (remdups (rev (acc @ xs)))"
proof (induction xs arbitrary: acc)
  case Nil
  then show ?case by (simp add: distinct_remdups_id)
next
  case (Cons x xs)
  show ?case
  proof (cases "x \<in> set acc")
    case True
    then have "remdups (rev xs @ x # rev acc) = remdups (rev xs @ rev acc)"
      by (simp add: remdups_skip_later)
    with True Cons show ?thesis by simp
  next
    case False
    with Cons.prems have "distinct (acc @ [x])" by simp
    from Cons.IH [OF this] False show ?thesis by simp
  qed
qed

lemma lstrip_head: "lstrip s \<noteq> [] \<Longrightarrow> \<not> py_isspace (hd (lstrip s))"
  unfolding lstrip_def by (rule hd_dropWhile)

lemma rstrip_last: "rstrip s \<noteq> [] \<Longrightarrow> \<not> py_isspace (last (rstrip s))"
  unfolding rstrip_def by (simp add: last_rev hd_dropWhile)

lemma rstrip_prefix: "s = rstrip s @ rev (takeWhile py_isspace (rev s))"
proof -
  have "s = rev (takeWhile py_isspace (rev s) @ dropWhile py_isspace (rev s))"
    by (simp only: takeWhile_dropWhile_id rev_rev_ident)
  then show ?thesis by (simp only: rev_append rstrip_def)
qed

lemma rstrip_head: "rstrip s \<noteq> [] \<Longrightarrow> hd (rstrip s) = hd s"
  using rstrip_prefix [of s] by (metis hd_append2)

lemma strip_head: "strip s \<noteq> [] \<Longrightarrow> \<not> py_isspace (hd (strip s))"
proof -
  assume ne: "strip s \<noteq> []"
  then have "hd (strip s) = hd (lstrip s)" unfolding strip_def by (rule rstrip_head)
  moreover have "lstrip s \<noteq> []" using ne by (auto simp: strip_def rstrip_def)
  ultimately show ?thesis by (simp add: lstrip_head)
qed

lemma strip_last: "strip s \<noteq> [] \<Longrightarrow> \<not> py_isspace (last (strip s))"
  unfolding strip_def by (rule rstrip_last)

lemma lstrip_id: "s = [] \<or> \<not> py_isspace (hd s) \<Longrightarrow> lstrip s = s"
  by (cases s) (auto simp: lstrip_def)

lemma rstrip_id: "s = [] \<or> \<not> py_isspace (last s) \<Longrightarrow> rstrip s = s"
  by (cases s rule: rev_cases) (auto simp: rstrip_def)

lemma strip_idem: "strip (strip s) = strip s"
proof (cases "strip s = []")
  case True
  moreover have "strip [] = []" by (simp add: strip_def lstrip_def rstrip_def)
  ultimately show ?thesis by simp
next
  case False
  then have "lstrip (strip s) = strip s" by (simp add: lstrip_id strip_head)
  moreover have "rstrip (strip s) = strip s" using False by (simp add: rstrip_id strip_last)
  ultimately show ?thesis by (simp add: strip_def [of "strip s"])
qed

lemma parse_csv_env_elements:
  "v \<in> set (parse_csv_env env name) \<Longrightarrow> v \<noteq> [] \<and> strip v = v"
  by (auto simp: parse_csv_env_def strip_idem)

lemma allowed_hosts_initial_elements: "[] \<notin> set (allowed_hosts_initial env)"
  using parse_csv_env_elements [of "[]" env]
  by (auto simp: allowed_hosts_initial_def Let_def lit_def)

lemma allowed_hosts_initial_not_Nil: "allowed_hosts_initial env \<noteq> []"
  by (simp add: allowed_hosts_initial_def Let_def)

lemma allowed_hosts_appended_prefix:
  "\<exists>ys. allowed_hosts_appended env = allowed_hosts_initial env @ ys"
  by (simp add: allowed_hosts_appended_def split: option.splits)

lemma allowed_hosts_filtered_not_Nil:
  "filter (\<lambda>h. h \<noteq> []) (allowed_hosts_appended env) \<noteq> []"
proof -
  obtain h hs where init: "allowed_hosts_initial env = h # hs"
    using allowed_hosts_initial_not_Nil [of env] by (cases "allowed_hosts_initial env") auto
  then have "h \<noteq> []" using allowed_hosts_initial_elements [of env] by auto
  moreover obtain ys where "allowed_hosts_appended env = (h # hs) @ ys"
    using allowed_hosts_appended_prefix [of env] init by auto
  ultimately show ?thesis by simp
qed

lemma dict_fromkeys_Nil: "dict_fromkeys [] xs = [] \<Longrightarrow> xs = []"
proof -
  assume "dict_fromkeys [] xs = []"
  then have "set (dict_fromkeys [] xs) = {}" by simp
  then have "set xs = {}" by (simp only: set_dict_fromkeys list.set Un_empty_left)
  then show ?thesis by (simp only: set_empty)
qed

lemma allowed_hosts_not_Nil: "allowed_hosts env \<noteq> []"
  unfolding allowed_hosts_def
  using allowed_hosts_filtered_not_Nil [of env] dict_fromkeys_Nil by blast

lemma allowed_hosts_no_empty: "[] \<notin> set (allowed_hosts env)"
  by (simp add: allowed_hosts_def set_dict_fromkeys)

lemma allowed_hosts_distinct: "distinct (allowed_hosts env)"
  by (simp add: allowed_hosts_def distinct_dict_fromkeys)

lemma allowed_hosts_order:
  "allowed_hosts env = rev (remdups (rev (filter (\<lambda>h. h \<noteq> []) (allowed_hosts_appended env))))"
  by (simp add: allowed_hosts_def dict_fromkeys_first_occurrences)

subsection \<open>Application-specific settings\<close>

text \<open>
  C1: the congestion alert threshold of the configuration built at startup is 75. The
  module assigns the literal and never reads the environment for it, so the value is 75
  in every environment, also in one that binds a variable of the setting's name.
\<close>

theorem congestion_threshold_default: "CONGESTION_THRESHOLD (load_settings env) = 75"
  by (simp add: load_settings_def)

theorem congestion_threshold_default_witness:
  "CONGESTION_THRESHOLD (load_settings Map.empty) = 75 \<and>
   CONGESTION_THRESHOLD (load_settings [lit ''CONGESTION_THRESHOLD'' \<mapsto> lit ''90'']) = 75"
  using congestion_threshold_default [of Map.empty]
    congestion_threshold_default [of "[lit ''CONGESTION_THRESHOLD'' \<mapsto> lit ''90'']"]
  by simp

text \<open>
  C2: the vessel update interval of the configuration built at startup is 60 seconds. It
  is a literal of the module as well, the same in every environment.
\<close>

theorem vessel_update_interval_default: "VESSEL_UPDATE_INTERVAL (load_settings env) = 60"
  by (simp add: load_settings_def)

theorem vessel_update_interval_default_witness:
  "VESSEL_UPDATE_INTERVAL (load_settings Map.empty) = 60 \<and>
   VESSEL_UPDATE_INTERVAL (load_settings [lit ''VESSEL_UPDATE_INTERVAL'' \<mapsto> lit ''5'']) = 60"
  using vessel_update_interval_default [of Map.empty]
    vessel_update_interval_default [of "[lit ''VESSEL_UPDATE_INTERVAL'' \<mapsto> lit ''5'']"]
  by simp

subsection \<open>Provider keys\<close>

text \<open>
  Each provider key is read with the empty string as its default: a key that the
  environment does not bind resolves to the empty string.
\<close>

lemma api_keys_default_empty:
  "env (lit ''MARINETRAFFIC_API_KEY'') = None \<Longrightarrow> MARINETRAFFIC_API_KEY (load_settings env) = []"
  "env (lit ''MARINESIA_API_KEY'') = None \<Longrightarrow> MARINESIA_API_KEY (load_settings env) = []"
  "env (lit ''UNCTAD_API_KEY'') = None \<Longrightarrow> UNCTAD_API_KEY (load_settings env) = []"
  "env (lit ''NOAA_API_KEY'') = None \<Longrightarrow> NOAA_API_KEY (load_settings env) = []"
  "env (lit ''STORMGLASS_API_KEY'') = None \<Longrightarrow> STORMGLASS_API_KEY (load_settings env) = []"
  by (simp_all add: load_settings_def getenv_default_def)

subsection \<open>\<open>ALLOWED_HOSTS\<close>\<close>

text \<open>
  C10: whatever the environment binds \<open>ALLOWED_HOSTS\<close> and
  \<open>RENDER_EXTERNAL_HOSTNAME\<close> to, the constructed \<open>ALLOWED_HOSTS\<close> list is not
  empty, holds no empty string and holds no entry twice. The reasons are stated with it:
  every element \<open>_parse_csv_env\<close> returns is non-empty and already stripped, and the
  final list is the list of first occurrences, in order, of the non-empty candidates.
\<close>

theorem allowed_hosts_nonempty_clean_distinct:
  "ALLOWED_HOSTS (load_settings env) \<noteq> [] \<and>
   [] \<notin> set (ALLOWED_HOSTS (load_settings env)) \<and>
   distinct (ALLOWED_HOSTS (load_settings env)) \<and>
   (\<forall>v \<in> set (parse_csv_env env name). v \<noteq> [] \<and> strip v = v) \<and>
   ALLOWED_HOSTS (load_settings env) =
     rev (remdups (rev (filter (\<lambda>h. h \<noteq> []) (allowed_hosts_appended env))))"
proof -
  have hosts: "ALLOWED_HOSTS (load_settings env) = allowed_hosts env"
    by (simp add: load_settings_def)
  have "\<forall>v \<in> set (parse_csv_env env name). v \<noteq> [] \<and> strip v = v"
    using parse_csv_env_elements by blast
  moreover have "allowed_hosts env =
      rev (remdups (rev (filter (\<lambda>h. h \<noteq> []) (allowed_hosts_appended env))))"
    by (rule allowed_hosts_order)
  ultimately show ?thesis
    unfolding hosts
    using allowed_hosts_not_Nil [of env] allowed_hosts_no_empty [of env]
      allowed_hosts_distinct [of env]
    by blast
qed

theorem allowed_hosts_nonempty_clean_distinct_witness:
  "(let env = [lit ''ALLOWED_HOSTS'' \<mapsto> lit '' a.com, b.com ,, a.com ,'',
               lit ''RENDER_EXTERNAL_HOSTNAME'' \<mapsto> lit '' b.com '']
    in lit ''a.com'' \<in> set (parse_csv_env env (lit ''ALLOWED_HOSTS'')) \<and>
       lit ''a.com'' \<noteq> [] \<and> strip (lit ''a.com'') = lit ''a.com'' \<and>
       ALLOWED_HOSTS (load_settings env) = [lit ''a.com'', lit ''b.com''] \<and>
       ALLOWED_HOSTS (load_settings env) \<noteq> [] \<and>
       [] \<notin> set (ALLOWED_HOSTS (load_settings env)) \<and>
       distinct (ALLOWED_HOSTS (load_settings env)))"
proof -
  let ?env = "[lit ''ALLOWED_HOSTS'' \<mapsto> lit '' a.com, b.com ,, a.com ,'',
               lit ''RENDER_EXTERNAL_HOSTNAME'' \<mapsto> lit '' b.com '']"
  have parsed: "lit ''a.com'' \<in> set (parse_csv_env ?env (lit ''ALLOWED_HOSTS''))"
    by (simp add: parse_csv_env_def getenv_default_def lit_def strip_def lstrip_def rstrip_def
        py_isspace_def)
  have hosts: "ALLOWED_HOSTS (load_settings ?env) = [lit ''a.com'', lit ''b.com'']"
    by (simp add: load_settings_def allowed_hosts_def allowed_hosts_appended_def
        allowed_hosts_initial_def parse_csv_env_def getenv_default_def getenv_def lit_def
        strip_def lstrip_def rstrip_def py_isspace_def)
  from allowed_hosts_nonempty_clean_distinct [of ?env "lit ''ALLOWED_HOSTS''"] parsed hosts
  show ?thesis unfolding Let_def by blast
qed

section \<open>Properties of the tracking core\<close>

subsection \<open>StateStore\<close>

lemma upsert_monotone:
  "store v = Some old \<Longrightarrow> \<exists>new. upsert store s v = Some new \<and> timestamp old \<le> timestamp new"
  by (auto simp: upsert_def split: option.splits)

lemma upsert_all_monotone:
  "store v = Some old \<Longrightarrow>
   \<exists>new. upsert_all store rs v = Some new \<and> timestamp old \<le> timestamp new"
proof (induction rs arbitrary: store old)
  case Nil
  then show ?case by simp
next
  case (Cons r rs)
  from upsert_monotone [of store v old r] Cons.prems
  obtain mid where mid: "upsert store r v = Some mid" "timestamp old \<le> timestamp mid"
    by blast
  from Cons.IH [of "upsert store r" mid] mid(1)
  obtain new where "upsert_all (upsert store r) rs v = Some new" "timestamp mid \<le> timestamp new"
    by blast
  with mid(2) show ?case by auto
qed

lemma upsert_all_append:
  "upsert_all store (xs @ ys) = upsert_all (upsert_all store xs) ys"
  by (induction xs arbitrary: store) auto

lemma upsert_older_discarded:
  "store (vessel_identifier r) = Some stored \<Longrightarrow> timestamp r < timestamp stored \<Longrightarrow>
   upsert store r = store"
  by (simp add: upsert_def example_position_def)

lemma upsert_other_vessel:
  "vessel_identifier r \<noteq> v \<Longrightarrow> upsert store r v = store v"
  by (simp add: upsert_def split: option.splits)

text \<open>
  C3: for every vessel identifier and every sequence of upserts, the stored timestamp never
  decreases: whatever state the store holds for a vessel after some upserts, after any
  further upserts it still holds a state for that vessel, with a timestamp at least as
  high. A report older than the state stored for its vessel is discarded: the store after
  the upsert is the store before it.
\<close>

theorem state_store_timestamp_monotone:
  "(\<forall>before. upsert_all store rs v = Some before \<longrightarrow>
      (\<exists>after. upsert_all store (rs @ rs') v = Some after \<and>
                timestamp before \<le> timestamp after)) \<and>
   (\<forall>stored. store (vessel_identifier r) = Some stored \<and>
             timestamp r < timestamp stored \<longrightarrow>
      upsert store r = store)"
  using upsert_all_monotone [of "upsert_all store rs" v _ rs'] upsert_older_discarded [of store r]
  by (auto simp: upsert_all_append)

theorem state_store_timestamp_monotone_witness:
  "(let r5 = example_position 5 ''ais_a'' 1;
        r10 = example_position 10 ''ais_a'' 1;
        r12 = example_position 12 ''ais_a'' 1
    in upsert_all Map.empty [r10] ''V'' = Some r10 \<and>
       upsert_all Map.empty ([r10] @ [r5, r12]) ''V'' = Some r12 \<and>
       timestamp r10 \<le> timestamp r12 \<and>
       [''V'' \<mapsto> r10] (vessel_identifier r5) = Some r10 \<and>
       timestamp r5 < timestamp r10 \<and>
       upsert [''V'' \<mapsto> r10] r5 = [''V'' \<mapsto> r10])"
proof -
  let ?r5 = "example_position 5 ''ais_a'' 1"
  let ?r10 = "example_position 10 ''ais_a'' 1"
  let ?r12 = "example_position 12 ''ais_a'' 1"
  have first: "upsert_all Map.empty [?r10] ''V'' = Some ?r10"
    by (simp add: upsert_def example_position_def)
  have all: "upsert_all Map.empty ([?r10] @ [?r5, ?r12]) ''V'' = Some ?r12"
    by (simp add: upsert_def example_position_def)
  have stored: "[''V'' \<mapsto> ?r10] (vessel_identifier ?r5) = Some ?r10"
    by (simp add: example_position_def)
  have older: "timestamp ?r5 < timestamp ?r10" by (simp add: example_position_def)
  from state_store_timestamp_monotone
    [where store = Map.empty and rs = "[?r10]" and v = "''V''" and rs' = "[?r5, ?r12]"] first
  have mono: "\<exists>after. upsert_all Map.empty ([?r10] @ [?r5, ?r12]) ''V'' = Some after \<and>
                timestamp ?r10 \<le> timestamp after"
    by blast
  from state_store_timestamp_monotone [where store = "[''V'' \<mapsto> ?r10]" and r = ?r5]
    stored older
  have discard: "upsert [''V'' \<mapsto> ?r10] ?r5 = [''V'' \<mapsto> ?r10]"
    by blast
  from mono all have "timestamp ?r10 \<le> timestamp ?r12" by simp
  with first all stored older discard show ?thesis unfolding Let_def by blast
qed

subsection \<open>Reconciler\<close>

lemma wins_over_irrefl: "\<not> wins_over priority a a"
  by (simp add: wins_over_def)

lemma wins_over_asym: "wins_over priority a b \<Longrightarrow> \<not> wins_over priority b a"
  by (auto simp: wins_over_def)

lemma wins_over_negtrans:
  "\<not> wins_over priority a b \<Longrightarrow> \<not> wins_over priority b c \<Longrightarrow> \<not> wins_over priority a c"
  by (auto simp: wins_over_def)

lemma select_best_mem: "select_best priority best ps \<in> set (best # ps)"
  by (induction ps arbitrary: best) (auto split: if_splits)

lemma select_best_unbeaten:
  "q \<in> set (best # ps) \<Longrightarrow> \<not> wins_over priority q (select_best priority best ps)"
proof (induction ps arbitrary: best q)
  case Nil
  then show ?case by (simp add: wins_over_irrefl)
next
  case (Cons p ps)
  let ?b = "if wins_over priority p best then p else best"
  have step: "\<not> wins_over priority best ?b" "\<not> wins_over priority p ?b"
    by (auto simp: wins_over_irrefl dest: wins_over_asym)
  have keep: "\<not> wins_over priority ?b (select_best priority ?b ps)"
    using Cons.IH [of ?b ?b] by simp
  from Cons.prems consider "q = best" | "q = p" | "q \<in> set ps" by auto
  then show ?case
  proof cases
    case 1
    with wins_over_negtrans [OF step(1) keep] show ?thesis by simp
  next
    case 2
    with wins_over_negtrans [OF step(2) keep] show ?thesis by simp
  next
    case 3
    then have "q \<in> set (?b # ps)" by simp
    from Cons.IH [of q ?b] this show ?thesis by simp
  qed
qed

lemma reconcile_Some: "positions \<noteq> [] \<Longrightarrow> \<exists>w. reconcile priority positions = Some w"
  by (cases positions) (simp_all add: reconcile_def)

text \<open>
  C4: from the positions collected for one vessel the Reconciler selects one of them
  whenever there is one, and no position beats the selected one: none has a higher
  timestamp; none with the same timestamp has a higher confidence; none with the same
  timestamp and confidence comes from a provider earlier in the configured priority
  list. In particular, of two positions with equal timestamps and different confidence
  the one with the higher confidence is retained, in whichever order they arrive.
\<close>

theorem reconcile_selects_authoritative:
  "(positions \<noteq> [] \<longrightarrow> (\<exists>w. reconcile priority positions = Some w)) \<and>
   (\<forall>w. reconcile priority positions = Some w \<longrightarrow>
      w \<in> set positions \<and>
      (\<forall>q \<in> set positions.
         timestamp q \<le> timestamp w \<and>
         (timestamp q = timestamp w \<longrightarrow>
            confidence q \<le> confidence w \<and>
            (confidence q = confidence w \<longrightarrow>
               provider_rank priority (source_provider w) \<le>
               provider_rank priority (source_provider q))))) \<and>
   (timestamp a = timestamp b \<and> confidence b < confidence a \<longrightarrow>
      reconcile priority [a, b] = Some a \<and> reconcile priority [b, a] = Some a)"
proof (intro conjI allI impI ballI)
  assume "positions \<noteq> []"
  then show "\<exists>w. reconcile priority positions = Some w" by (rule reconcile_Some)
next
  fix w
  assume "reconcile priority positions = Some w"
  then obtain p ps where ps: "positions = p # ps" and w: "w = select_best priority p ps"
    by (cases positions) (auto simp: reconcile_def)
  then show "w \<in> set positions" using select_best_mem [of priority p ps] by simp
  fix q
  assume "q \<in> set positions"
  with ps w have unbeaten: "\<not> wins_over priority q w"
    using select_best_unbeaten [of q p ps priority] by simp
  then show "timestamp q \<le> timestamp w" by (auto simp: wins_over_def)
  {
    assume ts: "timestamp q = timestamp w"
    with unbeaten show "confidence q \<le> confidence w" by (auto simp: wins_over_def)
    assume "confidence q = confidence w"
    with ts unbeaten
    show "provider_rank priority (source_provider w) \<le> provider_rank priority (source_provider q)"
      by (auto simp: wins_over_def)
  }
next
  assume "timestamp a = timestamp b \<and> confidence b < confidence a"
  then show "reconcile priority [a, b] = Some a" "reconcile priority [b, a] = Some a"
    by (auto simp: reconcile_def wins_over_def)
qed

theorem reconcile_selects_authoritative_witness:
  "(let a = example_position 10 ''ais_a'' 0.9;
        b = example_position 20 ''ais_b'' 0.8;
        c = example_position 20 ''ais_a'' 0.5
    in reconcile [''ais_a'', ''ais_b''] [a, b, c] = Some b \<and>
       b \<in> set [a, b, c] \<and>
       timestamp a \<le> timestamp b \<and> timestamp c \<le> timestamp b \<and>
       timestamp b = timestamp c \<and> confidence c < confidence b \<and>
       reconcile [''ais_a'', ''ais_b''] [c, b] = Some b)"
proof -
  let ?a = "example_position 10 ''ais_a'' 0.9"
  let ?b = "example_position 20 ''ais_b'' 0.8"
  let ?c = "example_position 20 ''ais_a'' 0.5"
  have sel: "reconcile [''ais_a'', ''ais_b''] [?a, ?b, ?c] = Some ?b"
    by (simp add: reconcile_def wins_over_def provider_rank_def example_position_def)
  have ne: "[?a, ?b, ?c] \<noteq> []" by simp
  have tie: "timestamp ?b = timestamp ?c \<and> confidence ?c < confidence ?b"
    by (simp add: example_position_def)
  note inst = reconcile_selects_authoritative
    [where positions = "[?a, ?b, ?c]" and priority = "[''ais_a'', ''ais_b'']" and a = ?b and b = ?c]
  from inst sel have mem: "?b \<in> set [?a, ?b, ?c]"
    and best: "\<forall>q \<in> set [?a, ?b, ?c]. timestamp q \<le> timestamp ?b"
    by blast+
  from inst tie have pair: "reconcile [''ais_a'', ''ais_b''] [?c, ?b] = Some ?b" by blast
  from best have "timestamp ?a \<le> timestamp ?b" "timestamp ?c \<le> timestamp ?b" by simp_all
  with sel mem pair tie show ?thesis unfolding Let_def by blast
qed

subsection \<open>CongestionEvaluator\<close>

lemma evaluate_no_prior: "evaluate m None snap thr = None"
  by (simp add: evaluate_def)

lemma evaluate_None_iff:
  "evaluate m (Some before) snap thr = None
     \<longleftrightarrow> (before < thr \<longleftrightarrow> metric_value m snap < thr)"
  by (auto simp: evaluate_def Let_def)

lemma evaluate_subject:
  "evaluate m prior snap thr = Some ev \<Longrightarrow>
   subject_id ev = port_id snap \<and> observed_value ev = metric_value m snap \<and> threshold ev = thr"
  by (auto simp: evaluate_def Let_def split: option.splits if_splits)

lemma emitted_Cons:
  "emitted (e # evs) = (case e of None \<Rightarrow> [] | Some ev \<Rightarrow> [ev]) @ emitted evs"
  by (simp add: emitted_def)

lemma emitted_Nil: "emitted [] = []"
  by (simp add: emitted_def)

lemma previous_metric_Nil: "previous_metric m prior [] p = prior p"
  by (simp add: previous_metric_def)

lemma previous_metric_Cons:
  "previous_metric m prior (x # xs) p =
   previous_metric m (prior(port_id x \<mapsto> metric_value m x)) xs p"
  by (simp add: previous_metric_def Let_def)

lemma length_evaluate_cycles: "length (evaluate_cycles m thr prior snaps) = length snaps"
  by (induction snaps arbitrary: prior) simp_all

lemma evaluate_cycles_nth:
  "evaluate_cycles m thr prior (xs @ s # ys) ! length xs =
   evaluate m (previous_metric m prior xs (port_id s)) s thr"
proof (induction xs arbitrary: prior)
  case Nil
  show ?case by (simp add: previous_metric_Nil)
next
  case (Cons x xs)
  let ?next = "prior(port_id x \<mapsto> metric_value m x)"
  have "evaluate_cycles m thr prior ((x # xs) @ s # ys) ! length (x # xs) =
      evaluate_cycles m thr ?next (xs @ s # ys) ! length xs"
    by simp
  also have "\<dots> = evaluate m (previous_metric m ?next xs (port_id s)) s thr"
    by (rule Cons.IH)
  also have "\<dots> = evaluate m (previous_metric m prior (x # xs) (port_id s)) s thr"
    by (simp only: previous_metric_Cons)
  finally show ?case .
qed

lemma evaluate_exceeded_run_iff:
  "(\<exists>ev. evaluate m prev s thr = Some ev \<and> kind ev = CongestionThresholdExceeded)
     \<longleftrightarrow> (\<exists>b. prev = Some b \<and> b < thr \<and> thr \<le> metric_value m s)"
  by (cases prev) (auto simp: evaluate_def Let_def)

lemma evaluate_recovered_run_iff:
  "(\<exists>ev. evaluate m prev s thr = Some ev \<and> kind ev = CongestionRecovered)
     \<longleftrightarrow> (\<exists>b. prev = Some b \<and> thr \<le> b \<and> metric_value m s < thr)"
  by (cases prev) (auto simp: evaluate_def Let_def)

lemma evaluate_silent_run_iff:
  "evaluate m prev s thr = None
     \<longleftrightarrow> (prev = None \<or> (\<exists>b. prev = Some b \<and> (b < thr \<longleftrightarrow> metric_value m s < thr)))"
  by (cases prev) (auto simp: evaluate_def Let_def)

lemma quiet_while_same_side:
  "prior p = Some level \<Longrightarrow>
   \<forall>s \<in> set snaps. port_id s = p \<longrightarrow> (metric_value m s < thr \<longleftrightarrow> level < thr) \<Longrightarrow>
   filter (\<lambda>ev. subject_id ev = p) (emitted (evaluate_cycles m thr prior snaps)) = []"
proof (induction snaps arbitrary: prior level)
  case Nil
  show ?case by (simp add: emitted_Nil)
next
  case (Cons s snaps)
  let ?next = "prior(port_id s \<mapsto> metric_value m s)"
  show ?case
  proof (cases "port_id s = p")
    case True
    with Cons.prems have side: "metric_value m s < thr \<longleftrightarrow> level < thr" by simp
    from True have state: "?next p = Some (metric_value m s)" by simp
    have tail: "\<forall>s' \<in> set snaps. port_id s' = p \<longrightarrow>
        (metric_value m s' < thr \<longleftrightarrow> metric_value m s < thr)"
      using Cons.prems(2) side by simp
    from Cons.prems(1) True side have "evaluate m (prior (port_id s)) s thr = None"
      by (simp add: evaluate_None_iff)
    moreover from Cons.IH [of ?next "metric_value m s"] state tail
    have "filter (\<lambda>ev. subject_id ev = p) (emitted (evaluate_cycles m thr ?next snaps)) = []"
      by blast
    ultimately show ?thesis by (simp add: emitted_Cons)
  next
    case False
    with Cons.prems(1) have state: "?next p = Some level" by simp
    have tail: "\<forall>s' \<in> set snaps. port_id s' = p \<longrightarrow>
        (metric_value m s' < thr \<longleftrightarrow> level < thr)"
      using Cons.prems(2) by simp
    from Cons.IH [of ?next level] state tail
    have rest: "filter (\<lambda>ev. subject_id ev = p) (emitted (evaluate_cycles m thr ?next snaps)) = []"
      by blast
    show ?thesis
    proof (cases "evaluate m (prior (port_id s)) s thr")
      case None
      with rest show ?thesis by (simp add: emitted_Cons)
    next
      case (Some ev)
      with evaluate_subject [OF Some] False rest show ?thesis by (simp add: emitted_Cons)
    qed
  qed
qed

lemma one_event_on_crossing:
  assumes prior: "prior (port_id s) = Some before"
    and cross: "before < thr \<and> thr \<le> metric_value m s"
    and stay: "\<forall>s' \<in> set snaps. port_id s' = port_id s \<longrightarrow> thr \<le> metric_value m s'"
  shows "filter (\<lambda>ev. subject_id ev = port_id s)
           (emitted (evaluate_cycles m thr prior (s # snaps))) =
         [\<lparr> kind = CongestionThresholdExceeded, subject_id = port_id s,
            observed_value = metric_value m s, threshold = thr,
            event_timestamp = snapshot_timestamp s \<rparr>]"
proof -
  let ?next = "prior(port_id s \<mapsto> metric_value m s)"
  have first: "evaluate m (prior (port_id s)) s thr =
      Some \<lparr> kind = CongestionThresholdExceeded, subject_id = port_id s,
            observed_value = metric_value m s, threshold = thr,
            event_timestamp = snapshot_timestamp s \<rparr>"
    using prior cross by (simp add: evaluate_def Let_def)
  have state: "?next (port_id s) = Some (metric_value m s)" by simp
  have side: "\<forall>s' \<in> set snaps. port_id s' = port_id s \<longrightarrow>
      (metric_value m s' < thr \<longleftrightarrow> metric_value m s < thr)"
    using stay cross by auto
  from quiet_while_same_side [of ?next "port_id s" "metric_value m s" snaps m thr] state side
  have "filter (\<lambda>ev. subject_id ev = port_id s)
      (emitted (evaluate_cycles m thr ?next snaps)) = []"
    by blast
  with first show ?thesis by (simp add: emitted_Cons)
qed

lemma one_event_on_recovery:
  assumes prior: "prior (port_id s) = Some before"
    and fall: "thr \<le> before \<and> metric_value m s < thr"
    and stay: "\<forall>s' \<in> set snaps. port_id s' = port_id s \<longrightarrow> metric_value m s' < thr"
  shows "filter (\<lambda>ev. subject_id ev = port_id s)
           (emitted (evaluate_cycles m thr prior (s # snaps))) =
         [\<lparr> kind = CongestionRecovered, subject_id = port_id s,
            observed_value = metric_value m s, threshold = thr,
            event_timestamp = snapshot_timestamp s \<rparr>]"
proof -
  let ?next = "prior(port_id s \<mapsto> metric_value m s)"
  have first: "evaluate m (prior (port_id s)) s thr =
      Some \<lparr> kind = CongestionRecovered, subject_id = port_id s,
            observed_value = metric_value m s, threshold = thr,
            event_timestamp = snapshot_timestamp s \<rparr>"
    using prior fall by (simp add: evaluate_def Let_def)
  have state: "?next (port_id s) = Some (metric_value m s)" by simp
  have side: "\<forall>s' \<in> set snaps. port_id s' = port_id s \<longrightarrow>
      (metric_value m s' < thr \<longleftrightarrow> metric_value m s < thr)"
    using stay fall by auto
  from quiet_while_same_side [of ?next "port_id s" "metric_value m s" snaps m thr] state side
  have "filter (\<lambda>ev. subject_id ev = port_id s)
      (emitted (evaluate_cycles m thr ?next snaps)) = []"
    by blast
  with first show ?thesis by (simp add: emitted_Cons)
qed

text \<open>
  C5: congestion alerting is edge-triggered, in every run and for every port. Take any run
  of snapshots from any tracked state, and any cycle of it. The state the cycle is compared
  with is the metric of the latest earlier snapshot of the same port in the run, or the
  state tracked before the run when there is none. The cycle creates a threshold-exceeded
  event exactly when that state was below the threshold and the metric is at-or-above it, a
  recovery event exactly when that state was at-or-above and the metric is below, and no
  event otherwise: when the metric stayed on its side, and when the port has no state yet
  (a port seen for the first time creates no event, whatever its metric). An event names
  the snapshot's port, its metric and the threshold, and a run has one outcome per cycle.
  Hence while a port's metric stays on one side no cycle creates an event for it; a
  crossing followed by any number of cycles at-or-above creates exactly one exceeded event
  for the port; a fall followed by any number of cycles below creates exactly one recovery
  event. With threshold 75 and 70 in the cycle before, the metrics 80, 80, 80, 80, 70
  create one exceeded event, then three cycles without event, then one recovery event.
\<close>

theorem congestion_alert_edge_triggered:
  "(let out = evaluate_cycles m thr prior (earlier @ snap # later) ! length earlier;
        prev = previous_metric m prior earlier (port_id snap);
        v = metric_value m snap
    in ((\<exists>ev. out = Some ev \<and> kind ev = CongestionThresholdExceeded)
          \<longleftrightarrow> (\<exists>b. prev = Some b \<and> b < thr \<and> thr \<le> v)) \<and>
       ((\<exists>ev. out = Some ev \<and> kind ev = CongestionRecovered)
          \<longleftrightarrow> (\<exists>b. prev = Some b \<and> thr \<le> b \<and> v < thr)) \<and>
       (out = None
          \<longleftrightarrow> prev = None \<or> (\<exists>b. prev = Some b \<and> (b < thr \<longleftrightarrow> v < thr))) \<and>
       (\<forall>ev. out = Some ev \<longrightarrow>
          subject_id ev = port_id snap \<and> observed_value ev = v \<and> threshold ev = thr)) \<and>
   length (evaluate_cycles m thr prior snaps) = length snaps \<and>
   (prior p = Some level \<and>
    (\<forall>s' \<in> set snaps. port_id s' = p \<longrightarrow> (metric_value m s' < thr \<longleftrightarrow> level < thr)) \<longrightarrow>
      filter (\<lambda>ev. subject_id ev = p) (emitted (evaluate_cycles m thr prior snaps)) = []) \<and>
   (prior (port_id s) = Some before \<and> before < thr \<and> thr \<le> metric_value m s \<and>
    (\<forall>s' \<in> set snaps. port_id s' = port_id s \<longrightarrow> thr \<le> metric_value m s') \<longrightarrow>
      filter (\<lambda>ev. subject_id ev = port_id s)
        (emitted (evaluate_cycles m thr prior (s # snaps))) =
      [\<lparr> kind = CongestionThresholdExceeded, subject_id = port_id s,
         observed_value = metric_value m s, threshold = thr,
         event_timestamp = snapshot_timestamp s \<rparr>]) \<and>
   (prior (port_id s) = Some before \<and> thr \<le> before \<and> metric_value m s < thr \<and>
    (\<forall>s' \<in> set snaps. port_id s' = port_id s \<longrightarrow> metric_value m s' < thr) \<longrightarrow>
      filter (\<lambda>ev. subject_id ev = port_id s)
        (emitted (evaluate_cycles m thr prior (s # snaps))) =
      [\<lparr> kind = CongestionRecovered, subject_id = port_id s,
         observed_value = metric_value m s, threshold = thr,
         event_timestamp = snapshot_timestamp s \<rparr>]) \<and>
   map (map_option (\<lambda>ev. (kind ev, observed_value ev)))
     (evaluate_cycles VesselsWaiting 75 [''P'' \<mapsto> 70]
        [example_snapshot 80 2, example_snapshot 80 3, example_snapshot 80 4,
         example_snapshot 80 5, example_snapshot 70 6]) =
     [Some (CongestionThresholdExceeded, 80), None, None, None, Some (CongestionRecovered, 70)]"
proof -
  let ?out = "evaluate_cycles m thr prior (earlier @ snap # later) ! length earlier"
  let ?prev = "previous_metric m prior earlier (port_id snap)"
  have out: "?out = evaluate m ?prev snap thr"
    by (rule evaluate_cycles_nth)
  have exceeded: "(\<exists>ev. ?out = Some ev \<and> kind ev = CongestionThresholdExceeded)
          \<longleftrightarrow> (\<exists>b. ?prev = Some b \<and> b < thr \<and> thr \<le> metric_value m snap)"
    unfolding out by (rule evaluate_exceeded_run_iff)
  have recovered: "(\<exists>ev. ?out = Some ev \<and> kind ev = CongestionRecovered)
          \<longleftrightarrow> (\<exists>b. ?prev = Some b \<and> thr \<le> b \<and> metric_value m snap < thr)"
    unfolding out by (rule evaluate_recovered_run_iff)
  have silent: "?out = None
          \<longleftrightarrow> ?prev = None \<or>
              (\<exists>b. ?prev = Some b \<and> (b < thr \<longleftrightarrow> metric_value m snap < thr))"
    unfolding out by (rule evaluate_silent_run_iff)
  have about: "\<forall>ev. ?out = Some ev \<longrightarrow>
          subject_id ev = port_id snap \<and> observed_value ev = metric_value m snap \<and>
          threshold ev = thr"
    unfolding out using evaluate_subject [of m ?prev snap thr] by blast
  have len: "length (evaluate_cycles m thr prior snaps) = length snaps"
    by (rule length_evaluate_cycles)
  have quiet: "prior p = Some level \<and>
    (\<forall>s' \<in> set snaps. port_id s' = p \<longrightarrow> (metric_value m s' < thr \<longleftrightarrow> level < thr)) \<longrightarrow>
      filter (\<lambda>ev. subject_id ev = p) (emitted (evaluate_cycles m thr prior snaps)) = []"
    using quiet_while_same_side [of prior p level snaps m thr] by blast
  have crossing: "prior (port_id s) = Some before \<and> before < thr \<and> thr \<le> metric_value m s \<and>
    (\<forall>s' \<in> set snaps. port_id s' = port_id s \<longrightarrow> thr \<le> metric_value m s') \<longrightarrow>
      filter (\<lambda>ev. subject_id ev = port_id s)
        (emitted (evaluate_cycles m thr prior (s # snaps))) =
      [\<lparr> kind = CongestionThresholdExceeded, subject_id = port_id s,
         observed_value = metric_value m s, threshold = thr,
         event_timestamp = snapshot_timestamp s \<rparr>]"
    using one_event_on_crossing [of prior s before thr m snaps] by blast
  have recovery: "prior (port_id s) = Some before \<and> thr \<le> before \<and> metric_value m s < thr \<and>
    (\<forall>s' \<in> set snaps. port_id s' = port_id s \<longrightarrow> metric_value m s' < thr) \<longrightarrow>
      filter (\<lambda>ev. subject_id ev = port_id s)
        (emitted (evaluate_cycles m thr prior (s # snaps))) =
      [\<lparr> kind = CongestionRecovered, subject_id = port_id s,
         observed_value = metric_value m s, threshold = thr,
         event_timestamp = snapshot_timestamp s \<rparr>]"
    using one_event_on_recovery [of prior s before thr m snaps] by blast
  have example: "map (map_option (\<lambda>ev. (kind ev, observed_value ev)))
     (evaluate_cycles VesselsWaiting 75 [''P'' \<mapsto> 70]
        [example_snapshot 80 2, example_snapshot 80 3, example_snapshot 80 4,
         example_snapshot 80 5, example_snapshot 70 6]) =
     [Some (CongestionThresholdExceeded, 80), None, None, None, Some (CongestionRecovered, 70)]"
    by (simp add: evaluate_def metric_value_def example_snapshot_def)
  from exceeded recovered silent about len quiet crossing recovery example
  show ?thesis unfolding Let_def by (intro conjI)
qed

theorem congestion_alert_edge_triggered_witness:
  "(let s70 = example_snapshot 70 1;
        rise = example_snapshot 80 2;
        stay1 = example_snapshot 80 3;
        stay2 = example_snapshot 80 4;
        stay3 = example_snapshot 80 5;
        fall = example_snapshot 70 6
    in previous_metric VesselsWaiting Map.empty [] (port_id rise) = None \<and>
       evaluate_cycles VesselsWaiting 75 Map.empty ([] @ rise # [stay1]) ! length ([] :: PortCongestionSnapshot list) = None \<and>
       previous_metric VesselsWaiting Map.empty [s70] (port_id rise) = Some 70 \<and>
       (\<exists>ev. evaluate_cycles VesselsWaiting 75 Map.empty ([s70] @ rise # [stay1]) ! length [s70]
                = Some ev \<and> kind ev = CongestionThresholdExceeded) \<and>
       previous_metric VesselsWaiting Map.empty [s70, rise] (port_id stay1) = Some 80 \<and>
       evaluate_cycles VesselsWaiting 75 Map.empty ([s70, rise] @ stay1 # []) ! length [s70, rise]
         = None \<and>
       filter (\<lambda>ev. subject_id ev = ''P'')
         (emitted (evaluate_cycles VesselsWaiting 75 [''P'' \<mapsto> 80] [stay1, stay2, stay3])) = [] \<and>
       filter (\<lambda>ev. subject_id ev = port_id rise)
         (emitted (evaluate_cycles VesselsWaiting 75 [''P'' \<mapsto> 70] [rise, stay1, stay2, stay3])) =
         [\<lparr> kind = CongestionThresholdExceeded, subject_id = ''P'', observed_value = 80,
            threshold = 75, event_timestamp = 2 \<rparr>] \<and>
       filter (\<lambda>ev. subject_id ev = port_id fall)
         (emitted (evaluate_cycles VesselsWaiting 75 [''P'' \<mapsto> 80] [fall])) =
         [\<lparr> kind = CongestionRecovered, subject_id = ''P'', observed_value = 70,
            threshold = 75, event_timestamp = 6 \<rparr>])"
proof -
  let ?s70 = "example_snapshot 70 1"
  let ?rise = "example_snapshot 80 2"
  let ?stay1 = "example_snapshot 80 3"
  let ?stays = "[example_snapshot 80 3, example_snapshot 80 4, example_snapshot 80 5]"
  let ?fall = "example_snapshot 70 6"
  note defs = previous_metric_def metric_value_def example_snapshot_def
  have p0: "previous_metric VesselsWaiting Map.empty [] (port_id ?rise) = None"
    by (simp add: defs)
  have p1: "previous_metric VesselsWaiting Map.empty [?s70] (port_id ?rise) = Some 70"
    by (simp add: defs)
  have p2: "previous_metric VesselsWaiting Map.empty [?s70, ?rise] (port_id ?stay1) = Some 80"
    by (simp add: defs)
  have v_rise: "metric_value VesselsWaiting ?rise = 80" "metric_value VesselsWaiting ?stay1 = 80"
    "metric_value VesselsWaiting ?fall = 70"
    by (simp_all add: defs)
  have first_sight:
    "evaluate_cycles VesselsWaiting 75 Map.empty ([] @ ?rise # [?stay1]) ! length ([] :: PortCongestionSnapshot list) = None"
    by (rule congestion_alert_edge_triggered [where m = VesselsWaiting and thr = 75 and prior = Map.empty and earlier = "[]"
      and snap = ?rise and later = "[?stay1]",
      unfolded Let_def, THEN conjunct1, THEN conjunct2, THEN conjunct2, THEN conjunct1,
      THEN iffD2, OF disjI1, OF p0])
  have c1: "\<exists>b. previous_metric VesselsWaiting Map.empty [?s70] (port_id ?rise) = Some b \<and>
      b < 75 \<and> 75 \<le> metric_value VesselsWaiting ?rise"
    using p1 v_rise(1) by simp
  have crossed:
    "\<exists>ev. evaluate_cycles VesselsWaiting 75 Map.empty ([?s70] @ ?rise # [?stay1]) ! length [?s70]
            = Some ev \<and> kind ev = CongestionThresholdExceeded"
    by (rule congestion_alert_edge_triggered [where m = VesselsWaiting and thr = 75 and prior = Map.empty and earlier = "[?s70]"
      and snap = ?rise and later = "[?stay1]",
      unfolded Let_def, THEN conjunct1, THEN conjunct1,
      THEN iffD2, OF c1])
  have c2: "\<exists>b. previous_metric VesselsWaiting Map.empty [?s70, ?rise] (port_id ?stay1) = Some b \<and>
      (b < 75 \<longleftrightarrow> metric_value VesselsWaiting ?stay1 < 75)"
    using p2 v_rise(2) by simp
  have stays_quiet:
    "evaluate_cycles VesselsWaiting 75 Map.empty ([?s70, ?rise] @ ?stay1 # []) !
       length [?s70, ?rise] = None"
    by (rule congestion_alert_edge_triggered [where m = VesselsWaiting and thr = 75 and prior = Map.empty
      and earlier = "[?s70, ?rise]" and snap = ?stay1 and later = "[]",
      unfolded Let_def, THEN conjunct1, THEN conjunct2, THEN conjunct2, THEN conjunct1,
      THEN iffD2, OF disjI2, OF c2])
  have h_quiet: "[''P'' \<mapsto> 80::real] ''P'' = Some 80 \<and>
     (\<forall>s' \<in> set ?stays. port_id s' = ''P'' \<longrightarrow>
        (metric_value VesselsWaiting s' < 75 \<longleftrightarrow> (80::real) < 75))"
    by (simp add: defs)
  have quiet: "filter (\<lambda>ev. subject_id ev = ''P'')
      (emitted (evaluate_cycles VesselsWaiting 75 [''P'' \<mapsto> 80] ?stays)) = []"
    by (rule congestion_alert_edge_triggered [where m = VesselsWaiting and thr = 75 and prior = "[''P'' \<mapsto> 80]" and p = "''P''"
      and level = 80 and snaps = ?stays,
      THEN conjunct2, THEN conjunct2, THEN conjunct1,
      THEN mp, OF h_quiet])
  have h_cross: "[''P'' \<mapsto> 70::real] (port_id ?rise) = Some 70 \<and> (70::real) < 75 \<and>
     75 \<le> metric_value VesselsWaiting ?rise \<and>
     (\<forall>s' \<in> set ?stays. port_id s' = port_id ?rise \<longrightarrow> 75 \<le> metric_value VesselsWaiting s')"
    by (simp add: defs)
  have "filter (\<lambda>ev. subject_id ev = port_id ?rise)
      (emitted (evaluate_cycles VesselsWaiting 75 [''P'' \<mapsto> 70] (?rise # ?stays))) =
      [\<lparr> kind = CongestionThresholdExceeded, subject_id = port_id ?rise,
         observed_value = metric_value VesselsWaiting ?rise, threshold = 75,
         event_timestamp = snapshot_timestamp ?rise \<rparr>]"
    by (rule congestion_alert_edge_triggered [where m = VesselsWaiting and thr = 75 and prior = "[''P'' \<mapsto> 70]" and s = ?rise
      and before = 70 and snaps = ?stays,
      THEN conjunct2, THEN conjunct2, THEN conjunct2, THEN conjunct1,
      THEN mp, OF h_cross])
  moreover have "port_id ?rise = ''P''" "snapshot_timestamp ?rise = 2"
    by (simp_all add: defs)
  ultimately have one_exceeded: "filter (\<lambda>ev. subject_id ev = port_id ?rise)
      (emitted (evaluate_cycles VesselsWaiting 75 [''P'' \<mapsto> 70] (?rise # ?stays))) =
      [\<lparr> kind = CongestionThresholdExceeded, subject_id = ''P'', observed_value = 80,
         threshold = 75, event_timestamp = 2 \<rparr>]"
    using v_rise(1) by (simp only:)
  have h_fall: "[''P'' \<mapsto> 80::real] (port_id ?fall) = Some 80 \<and> (75::real) \<le> 80 \<and>
     metric_value VesselsWaiting ?fall < 75 \<and>
     (\<forall>s' \<in> set []. port_id s' = port_id ?fall \<longrightarrow> metric_value VesselsWaiting s' < 75)"
    by (simp add: defs)
  have "filter (\<lambda>ev. subject_id ev = port_id ?fall)
      (emitted (evaluate_cycles VesselsWaiting 75 [''P'' \<mapsto> 80] (?fall # []))) =
      [\<lparr> kind = CongestionRecovered, subject_id = port_id ?fall,
         observed_value = metric_value VesselsWaiting ?fall, threshold = 75,
         event_timestamp = snapshot_timestamp ?fall \<rparr>]"
    by (rule congestion_alert_edge_triggered [where m = VesselsWaiting and thr = 75 and prior = "[''P'' \<mapsto> 80]" and s = ?fall
      and before = 80 and snaps = "[]",
      THEN conjunct2, THEN conjunct2, THEN conjunct2, THEN conjunct2, THEN conjunct1,
      THEN mp, OF h_fall])
  moreover have "port_id ?fall = ''P''" "snapshot_timestamp ?fall = 6"
    by (simp_all add: defs)
  ultimately have one_recovery: "filter (\<lambda>ev. subject_id ev = port_id ?fall)
      (emitted (evaluate_cycles VesselsWaiting 75 [''P'' \<mapsto> 80] [?fall])) =
      [\<lparr> kind = CongestionRecovered, subject_id = ''P'', observed_value = 70,
         threshold = 75, event_timestamp = 6 \<rparr>]"
    using v_rise(3) by (simp only:)
  from p0 first_sight p1 crossed p2 stays_quiet quiet one_exceeded one_recovery
  show ?thesis unfolding Let_def by (intro conjI)
qed

end
